theory Spec2Isabelle
  imports Complex_Main "HOL-Library.Sublist"
begin

section \<open>Shared helpers\<close>

text \<open>
  Python renders a length with \<^verbatim>\<open>f"{len(value)}"\<close>: the decimal digits of a
  natural number.
\<close>

definition digit_char :: "nat \<Rightarrow> char" where
  "digit_char d = char_of (48 + d)"

function show_nat :: "nat \<Rightarrow> string" where
  "show_nat n = (if n < 10 then [digit_char n] else show_nat (n div 10) @ [digit_char (n mod 10)])"
  by pat_completeness auto

termination
  by (relation "measure id") auto

text \<open>The double quote character, and Python's \<^verbatim>\<open>sep.join(lines)\<close>.\<close>

definition dq :: string where
  "dq = [CHR 0x22]"

fun join :: "string \<Rightarrow> string list \<Rightarrow> string" where
  "join sep [] = []"
| "join sep [x] = x"
| "join sep (x # y # ys) = x @ sep @ join sep (y # ys)"

section \<open>inspector.py: StateInspector\<close>

text \<open>
  A context value, as far as \<^verbatim>\<open>StateInspector._preview_value\<close> looks at it: a
  \<^verbatim>\<open>str\<close> with its text; a list or tuple, or a dict, with its length; anything
  else. The second component of the last three is the outcome of \<^verbatim>\<open>str(value)\<close>:
  its text, or \<open>None\<close> when the call raises (the source catches
  \<^verbatim>\<open>Exception\<close> and answers with the text "unprintable" in angle brackets).
\<close>

datatype ctx_value =
    CStr string
  | CSeq nat "string option"
  | CDict nat "string option"
  | COther "string option"

definition str_or_unprintable :: "string option \<Rightarrow> string" where
  "str_or_unprintable r = (case r of None \<Rightarrow> ''<unprintable>'' | Some s \<Rightarrow> s)"

fun preview_value :: "ctx_value \<Rightarrow> nat \<Rightarrow> string" where
  "preview_value (CStr s) max_length =
     (if length s > max_length then dq @ take max_length s @ ''...'' @ dq else dq @ s @ dq)"
| "preview_value (CSeq n r) max_length =
     (if n > 3 then ''['' @ show_nat n @ '' items]'' else str_or_unprintable r)"
| "preview_value (CDict n r) max_length =
     (if n > 3 then ''{'' @ show_nat n @ '' keys}'' else str_or_unprintable r)"
| "preview_value (COther r) max_length = str_or_unprintable r"

text \<open>
  A snapshot is the dict \<^verbatim>\<open>take_snapshot\<close> builds; its five keys are the fields.
  A context is a Python dict: an association list in insertion order. The timestamp is
  the text \<^verbatim>\<open>datetime.now().isoformat()\<close> returns at the call, an input here.
\<close>

record snapshot =
  step :: int
  node_id :: string
  timestamp :: string
  context_keys :: "string list"
  context_preview :: "(string \<times> string) list"

record StateInspector =
  snapshots :: "snapshot list"

definition new_StateInspector :: StateInspector where
  "new_StateInspector = \<lparr>snapshots = []\<rparr>"

definition take_snapshot ::
  "StateInspector \<Rightarrow> int \<Rightarrow> string \<Rightarrow> (string \<times> ctx_value) list \<Rightarrow> string
    \<Rightarrow> snapshot \<times> StateInspector" where
  "take_snapshot self stp nid context ts =
     (let snap = \<lparr>step = stp, node_id = nid, timestamp = ts,
                    context_keys = map fst context,
                    context_preview = map (\<lambda>(k, v). (k, preview_value v 80)) context\<rparr>
      in (snap, self\<lparr>snapshots := snapshots self @ [snap]\<rparr>))"

text \<open>The loop of \<^verbatim>\<open>get_snapshot\<close> returns the first snapshot of the list with the step.\<close>

fun first_with_step :: "snapshot list \<Rightarrow> int \<Rightarrow> snapshot option" where
  "first_with_step [] stp = None"
| "first_with_step (s # ss) stp = (if step s = stp then Some s else first_with_step ss stp)"

definition get_snapshot :: "StateInspector \<Rightarrow> int \<Rightarrow> snapshot option" where
  "get_snapshot self stp = first_with_step (snapshots self) stp"

text \<open>
  \<^verbatim>\<open>compare_snapshots\<close> returns a dict: the error dict, or the four keys of a
  difference. The three key lists are \<^verbatim>\<open>list(...)\<close> of a Python set, whose order
  is the set's iteration order; the model keeps the set.
\<close>

datatype compare_result =
    CompareError string
  | CompareDiff (added_keys: "string set") (removed_keys: "string set")
      (common_keys: "string set") (step_diff: int)

definition compare_snapshots :: "StateInspector \<Rightarrow> int \<Rightarrow> int \<Rightarrow> compare_result" where
  "compare_snapshots self step1 step2 =
     (case get_snapshot self step1 of
        None \<Rightarrow> CompareError ''One or both snapshots not found''
      | Some snap1 \<Rightarrow>
          (case get_snapshot self step2 of
             None \<Rightarrow> CompareError ''One or both snapshots not found''
           | Some snap2 \<Rightarrow>
               (let keys1 = set (context_keys snap1); keys2 = set (context_keys snap2)
                in CompareDiff (keys2 - keys1) (keys1 - keys2) (keys1 \<inter> keys2) (step2 - step1))))"

text \<open>A run of \<^verbatim>\<open>take_snapshot\<close> calls on one inspector, in call order.\<close>

fun take_snapshots ::
  "StateInspector \<Rightarrow> (int \<times> string \<times> (string \<times> ctx_value) list \<times> string) list
    \<Rightarrow> StateInspector" where
  "take_snapshots self [] = self"
| "take_snapshots self ((stp, nid, context, ts) # calls) =
     take_snapshots (snd (take_snapshot self stp nid context ts)) calls"

subsection \<open>Notions and example inputs for the statements\<close>

definition two_snapshots :: StateInspector where
  "two_snapshots = take_snapshots new_StateInspector
     [(1, ''fetch'', [(''a'', COther (Some ''1'')), (''b'', CStr ''x'')], ''t1''),
      (2, ''parse'', [(''b'', CStr ''x''), (''c'', CSeq 0 (Some ''[]''))], ''t2'')]"

section \<open>debugger.py: breakpoints of AgentDebugger\<close>

datatype BreakpointType =
    NODE_ENTER | NODE_EXIT | EDGE_TRAVERSE | CONDITION_EVAL | TOOL_CALL | ERROR

text \<open>The \<^verbatim>\<open>.value\<close> of each member of the enum.\<close>

fun type_value :: "BreakpointType \<Rightarrow> string" where
  "type_value NODE_ENTER = ''node_enter''"
| "type_value NODE_EXIT = ''node_exit''"
| "type_value EDGE_TRAVERSE = ''edge_traverse''"
| "type_value CONDITION_EVAL = ''condition_eval''"
| "type_value TOOL_CALL = ''tool_call''"
| "type_value ERROR = ''error''"

text \<open>
  The dataclass \<^verbatim>\<open>Breakpoint\<close>; its field \<^verbatim>\<open>id\<close> is \<open>bp_id\<close> here
  (\<open>id\<close> is the identity function of HOL).
\<close>

record Breakpoint =
  bp_id :: string
  breakpoint_type :: BreakpointType
  target :: string
  condition :: "string option"
  enabled :: bool
  hit_count :: int

text \<open>
  The part of \<^verbatim>\<open>AgentDebugger\<close> that the breakpoint methods read and write: the
  dict \<^verbatim>\<open>breakpoints\<close> from id to breakpoint, and the two flags. The runtime, the
  \<^verbatim>\<open>DebugState\<close>, the trace history and the callbacks are not touched by them.
\<close>

record AgentDebugger =
  interactive :: bool
  breakpoints :: "string \<rightharpoonup> Breakpoint"
  step_mode :: bool

definition new_AgentDebugger :: "bool \<Rightarrow> AgentDebugger" where
  "new_AgentDebugger flag = \<lparr>interactive = flag, breakpoints = Map.empty, step_mode = False\<rparr>"

text \<open>The id both methods build: \<^verbatim>\<open>f"{breakpoint_type.value}:{target}"\<close>.\<close>

definition make_bp_id :: "BreakpointType \<Rightarrow> string \<Rightarrow> string" where
  "make_bp_id ty tgt = type_value ty @ '':'' @ tgt"

definition set_breakpoint ::
  "AgentDebugger \<Rightarrow> string \<Rightarrow> BreakpointType \<Rightarrow> string option \<Rightarrow> Breakpoint \<times> AgentDebugger" where
  "set_breakpoint self tgt ty cond =
     (let i = make_bp_id ty tgt;
          bp = \<lparr>bp_id = i, breakpoint_type = ty, target = tgt, condition = cond,
                 enabled = True, hit_count = 0\<rparr>
      in (bp, self\<lparr>breakpoints := (breakpoints self)(i \<mapsto> bp)\<rparr>))"

definition remove_breakpoint :: "AgentDebugger \<Rightarrow> string \<Rightarrow> bool \<times> AgentDebugger" where
  "remove_breakpoint self i =
     (if i \<in> dom (breakpoints self)
      then (True, self\<lparr>breakpoints := (breakpoints self)(i := None)\<rparr>)
      else (False, self))"

text \<open>
  \<^verbatim>\<open>eval(breakpoint.condition, {"context": context})\<close> runs an arbitrary expression.
  Its outcome is an input of the model: the value is true or false as a Python
  condition, or the evaluation raises. \<^verbatim>\<open>except Exception\<close> catches what derives
  from \<^verbatim>\<open>Exception\<close> (the errors of Python); an exception that derives from
  \<^verbatim>\<open>BaseException\<close> only (\<^verbatim>\<open>SystemExit\<close>, \<^verbatim>\<open>KeyboardInterrupt\<close>) is not
  caught and leaves \<^verbatim>\<open>_should_break\<close>. The expression is taken to leave the
  debugger's own fields alone.
\<close>

datatype eval_outcome = Truthy | Falsy | RaisesException | RaisesBaseException

datatype 'a returned = Propagates | Returns 'a

text \<open>
  \<^verbatim>\<open>_should_break\<close>. \<^verbatim>\<open>if breakpoint.condition:\<close> is Python truth of an optional
  string: neither \<^verbatim>\<open>None\<close> nor the empty string.
\<close>

definition should_break ::
  "(string \<Rightarrow> 'c \<Rightarrow> eval_outcome) \<Rightarrow> AgentDebugger \<Rightarrow> BreakpointType \<Rightarrow> string \<Rightarrow> 'c
    \<Rightarrow> bool returned \<times> AgentDebugger" where
  "should_break eval self ty tgt context =
     (let i = make_bp_id ty tgt in
      case breakpoints self i of
        None \<Rightarrow> (Returns False, self)
      | Some bp \<Rightarrow>
          if \<not> enabled bp then (Returns False, self)
          else
            let hit = (Returns True,
                       self\<lparr>breakpoints := (breakpoints self)(i \<mapsto> bp\<lparr>hit_count := hit_count bp + 1\<rparr>)\<rparr>)
            in if condition bp \<noteq> None \<and> condition bp \<noteq> Some []
               then (case eval (the (condition bp)) context of
                       Truthy \<Rightarrow> hit
                     | Falsy \<Rightarrow> (Returns False, self)
                     | RaisesException \<Rightarrow> (Returns False, self)
                     | RaisesBaseException \<Rightarrow> (Propagates, self))
               else hit)"

text \<open>The same call made \<open>n\<close> times: the values returned, in order, and the last state.\<close>

fun should_break_times ::
  "nat \<Rightarrow> (string \<Rightarrow> 'c \<Rightarrow> eval_outcome) \<Rightarrow> AgentDebugger \<Rightarrow> BreakpointType \<Rightarrow> string \<Rightarrow> 'c
    \<Rightarrow> bool returned list \<times> AgentDebugger" where
  "should_break_times 0 eval self ty tgt context = ([], self)"
| "should_break_times (Suc n) eval self ty tgt context =
     (let (r, self') = should_break eval self ty tgt context;
          (rs, self'') = should_break_times n eval self' ty tgt context
      in (r # rs, self''))"

subsection \<open>Notions and example inputs for the statements\<close>

definition debugger_B :: AgentDebugger where
  "debugger_B = snd (set_breakpoint (new_AgentDebugger False) ''B'' NODE_ENTER None)"

definition always_truthy :: "string \<Rightarrow> unit \<Rightarrow> eval_outcome" where
  "always_truthy c ctx = Truthy"

definition debugger_cond :: AgentDebugger where
  "debugger_cond = snd (set_breakpoint (new_AgentDebugger False) ''B'' NODE_ENTER (Some ''context[0] > 1''))"

fun eval_example :: "string \<Rightarrow> int list \<Rightarrow> eval_outcome" where
  "eval_example c [] = RaisesException"
| "eval_example c (x # xs) = (if x > 1 then Truthy else Falsy)"

section \<open>visualizer.py: GraphVisualizer\<close>

text \<open>
  The graph description comes from \<^verbatim>\<open>framework.graph\<close>, which the visualizer only
  reads. A node has an id, a name and a node type; an edge has an id, a source, a target,
  a condition and an optional condition expression. The fields are prefixed here, since a
  breakpoint has a \<open>target\<close> too.

  \<^verbatim>\<open>edge.condition.value if hasattr(edge.condition, 'value') else str(edge.condition)\<close>
  reads the condition two ways: an object with a \<^verbatim>\<open>value\<close> attribute (an enum
  member) gives that value, any other object its \<^verbatim>\<open>str()\<close>.
\<close>

datatype condition_obj = HasValue string | NoValue string

fun condition_text :: "condition_obj \<Rightarrow> string" where
  "condition_text (HasValue v) = v"
| "condition_text (NoValue s) = s"

record NodeSpec =
  node_spec_id :: string
  name :: string
  node_type :: string

record EdgeSpec =
  edge_id :: string
  edge_source :: string
  edge_target :: string
  edge_condition :: condition_obj
  condition_expr :: "string option"

record GraphSpec =
  nodes :: "NodeSpec list"
  edges :: "EdgeSpec list"
  entry_point :: string








fun walk :: "EdgeSpec list \<Rightarrow> string list \<Rightarrow> bool" where
  "walk es [] = False"
| "walk es [v] = True"
| "walk es (u # v # p) = (list_ex (\<lambda>e. edge_source e = u \<and> edge_target e = v) es \<and> walk es (v # p))"



text \<open>
  \<^verbatim>\<open>render_dot\<close>. In the source the label is built with a backslash and the letter n
  inside an f-string, which Graphviz reads as a line break; the lines are joined with a
  newline character.
\<close>

definition backslash_n :: string where
  "backslash_n = [CHR 0x5C, CHR ''n'']"

definition newline :: string where
  "newline = [CHR 0x0A]"

definition dot_node_attrs :: "GraphSpec \<Rightarrow> NodeSpec \<Rightarrow> string list" where
  "dot_node_attrs graph node =
     (let label = name node @ backslash_n @ ''('' @ node_type node @ '')''
      in [''label='' @ dq @ label @ dq] @
         (if node_spec_id node = entry_point graph
          then [''style='' @ dq @ ''rounded,bold'' @ dq, ''color='' @ dq @ ''blue'' @ dq]
          else []))"

definition dot_node_line :: "GraphSpec \<Rightarrow> NodeSpec \<Rightarrow> string" where
  "dot_node_line graph node =
     ''    '' @ node_spec_id node @ '' ['' @ join '', '' (dot_node_attrs graph node) @ ''];''"

text \<open>
  \<^verbatim>\<open>hasattr(edge, 'condition_expr') and edge.condition_expr\<close>: the expression is there
  and is not empty. \<^verbatim>\<open>"CONDITIONAL" in condition\<close> is Python's substring test.
\<close>

definition dot_edge_attrs :: "EdgeSpec \<Rightarrow> string list" where
  "dot_edge_attrs edge =
     (let condition = condition_text (edge_condition edge);
          label = condition @
            (case condition_expr edge of
               None \<Rightarrow> []
             | Some x \<Rightarrow> if x = [] then [] else backslash_n @ x)
      in [''label='' @ dq @ label @ dq] @
         (if sublist ''CONDITIONAL'' condition then [''style='' @ dq @ ''dashed'' @ dq] else []))"

definition dot_edge_line :: "EdgeSpec \<Rightarrow> string" where
  "dot_edge_line edge =
     ''    '' @ edge_source edge @ '' -> '' @ edge_target edge @ '' ['' @
       join '', '' (dot_edge_attrs edge) @ ''];''"

definition render_dot :: "GraphSpec \<Rightarrow> string" where
  "render_dot graph =
     join newline
       ([''digraph Agent {'', ''    rankdir=TD;'', ''    node [shape=box, style=rounded];'', []] @
        map (dot_node_line graph) (nodes graph) @
        [[]] @
        map dot_edge_line (edges graph) @
        [''}''])"

text \<open>
  Modelled from the spec: the members of the enum \<^verbatim>\<open>EdgeCondition\<close>, which
  \<^verbatim>\<open>framework.graph\<close> declares and which is not among the source files. The spec tags the
  two edges of its example \<^verbatim>\<open>on_success\<close> and \<^verbatim>\<open>conditional\<close>: the values of the members
  \<^verbatim>\<open>EdgeCondition.ON_SUCCESS\<close> and \<^verbatim>\<open>EdgeCondition.CONDITIONAL\<close> that the example agents use.
\<close>

definition ON_SUCCESS :: condition_obj where
  "ON_SUCCESS = HasValue ''on_success''"

definition CONDITIONAL :: condition_obj where
  "CONDITIONAL = HasValue ''conditional''"

subsection \<open>Notions and example inputs for the statements\<close>

definition mk_edge :: "string \<Rightarrow> string \<Rightarrow> string \<Rightarrow> condition_obj \<Rightarrow> string option \<Rightarrow> EdgeSpec" where
  "mk_edge i s t c x =
     \<lparr>edge_id = i, edge_source = s, edge_target = t, edge_condition = c, condition_expr = x\<rparr>"

definition mk_node :: "string \<Rightarrow> string \<Rightarrow> string \<Rightarrow> NodeSpec" where
  "mk_node i n t = \<lparr>node_spec_id = i, name = n, node_type = t\<rparr>"

definition abc_nodes :: "NodeSpec list" where
  "abc_nodes = [mk_node ''A'' ''Alpha'' ''llm'', mk_node ''B'' ''Beta'' ''llm'', mk_node ''C'' ''Gamma'' ''function'']"



definition two_edge_graph :: GraphSpec where
  "two_edge_graph = \<lparr>nodes = abc_nodes,
     edges = [mk_edge ''ab'' ''A'' ''B'' ON_SUCCESS None,
              mk_edge ''bc'' ''B'' ''C'' CONDITIONAL (Some ''x>0'')],
     entry_point = ''A''\<rparr>"





section \<open>tracer.py: ToolCallTracer\<close>

text \<open>
  Python values as the tracer handles them. The arguments of a tool call are a dict whose
  values may be mutable containers shared with the caller, so containers live in a
  store and a value refers to one by its address. A \<^verbatim>\<open>ToolCall\<close> and an
  \<^verbatim>\<open>ExecutionTrace\<close> are mutable objects too, shared between the caller's handle, the
  tracer's lists and the trace: each kind has its store, and the lists hold addresses.
  A store is a list, an address an index into it; a new object goes to the end, so its
  address is the length of the store and is fresh.
\<close>

datatype pyval = PNone | PInt int | PStr string | PRef nat

datatype pyobj = PList "pyval list" | PDict "(string \<times> pyval) list"

text \<open>
  The dataclass \<^verbatim>\<open>ToolCall\<close>. \<^verbatim>\<open>time.time()\<close> returns a float: the readings of the
  clock are inputs of the model, taken as real numbers (rounding is not modelled; the sign
  of a difference of two readings is the same in both).
\<close>

record ToolCall =
  tool_name :: string
  arguments :: nat
  start_time :: real
  end_time :: "real option"
  duration_ms :: "real option"
  result :: pyval
  error :: "string option"
  status :: string
  call_stack_depth :: int

text \<open>
  The dataclass \<^verbatim>\<open>ExecutionTrace\<close>; its \<^verbatim>\<open>start_time\<close>, \<^verbatim>\<open>end_time\<close> are prefixed
  here, the names being taken by \<^verbatim>\<open>ToolCall\<close>. An edge traversal is the dict
  \<^verbatim>\<open>record_edge_traversal\<close> builds: edge id, source, target, condition, timestamp.
\<close>

record ExecutionTrace =
  trace_id :: string
  trace_start_time :: real
  trace_end_time :: "real option"
  node_sequence :: "string list"
  tool_calls :: "nat list"
  edge_traversals :: "(string \<times> string \<times> string \<times> string \<times> real) list"
  total_duration_ms :: "real option"

record store =
  call_objs :: "ToolCall list"
  trace_objs :: "ExecutionTrace list"
  objs :: "pyobj list"

text \<open>
  The tracer object; its counter \<^verbatim>\<open>call_stack_depth\<close> is \<open>stack_depth\<close> here, the name
  being taken by the field of \<^verbatim>\<open>ToolCall\<close>.
\<close>

record ToolCallTracer =
  enable_timing :: bool
  current_trace :: "nat option"
  traces :: "nat list"
  active_tool_calls :: "nat list"
  stack_depth :: int

definition new_ToolCallTracer :: "bool \<Rightarrow> ToolCallTracer" where
  "new_ToolCallTracer enable =
     \<lparr>enable_timing = enable, current_trace = None, traces = [], active_tool_calls = [],
      stack_depth = 0\<rparr>"

definition empty_store :: store where
  "empty_store = \<lparr>call_objs = [], trace_objs = [], objs = []\<rparr>"

definition start_trace ::
  "ToolCallTracer \<Rightarrow> store \<Rightarrow> string \<Rightarrow> real \<Rightarrow> nat \<times> ToolCallTracer \<times> store" where
  "start_trace self h tid now =
     (let trace = \<lparr>trace_id = tid, trace_start_time = now, trace_end_time = None,
                    node_sequence = [], tool_calls = [], edge_traversals = [],
                    total_duration_ms = None\<rparr>;
          a = length (trace_objs h)
      in (a, self\<lparr>current_trace := Some a, traces := traces self @ [a]\<rparr>,
          h\<lparr>trace_objs := trace_objs h @ [trace]\<rparr>))"

text \<open>
  \<^verbatim>\<open>end_trace\<close>: \<^verbatim>\<open>if self.current_trace.start_time:\<close> is Python truth of a float,
  that is, not zero.
\<close>

definition end_trace ::
  "ToolCallTracer \<Rightarrow> store \<Rightarrow> real \<Rightarrow> nat option \<times> ToolCallTracer \<times> store" where
  "end_trace self h now =
     (case current_trace self of
        None \<Rightarrow> (None, self, h)
      | Some a \<Rightarrow>
          (let t0 = trace_objs h ! a;
               t1 = t0\<lparr>trace_end_time := Some now\<rparr>;
               t2 = (if trace_start_time t1 \<noteq> 0
                     then t1\<lparr>total_duration_ms := Some ((now - trace_start_time t1) * 1000)\<rparr>
                     else t1)
           in (Some a, self\<lparr>current_trace := None\<rparr>,
               h\<lparr>trace_objs := (trace_objs h)[a := t2]\<rparr>)))"

definition record_node_enter :: "ToolCallTracer \<Rightarrow> store \<Rightarrow> string \<Rightarrow> store" where
  "record_node_enter self h nid =
     (case current_trace self of
        None \<Rightarrow> h
      | Some a \<Rightarrow>
          h\<lparr>trace_objs := (trace_objs h)
               [a := (trace_objs h ! a)\<lparr>node_sequence := node_sequence (trace_objs h ! a) @ [nid]\<rparr>]\<rparr>)"

text \<open>
  \<^verbatim>\<open>start_tool_call\<close>. \<^verbatim>\<open>arguments.copy()\<close> makes a new container with the entries
  of the caller's: the values of the entries are the same values, references included.
  The caller's arguments are given by their address in the store.
\<close>

definition start_tool_call ::
  "ToolCallTracer \<Rightarrow> store \<Rightarrow> string \<Rightarrow> nat \<Rightarrow> real \<Rightarrow> nat \<times> ToolCallTracer \<times> store" where
  "start_tool_call self h tname args now =
     (let copy = length (objs h);
          tool_call = \<lparr>tool_name = tname, arguments = copy, start_time = now,
                        end_time = None, duration_ms = None, result = PNone, error = None,
                        status = ''pending'', call_stack_depth = stack_depth self\<rparr>;
          c = length (call_objs h);
          self1 = self\<lparr>active_tool_calls := active_tool_calls self @ [c],
                       stack_depth := stack_depth self + 1\<rparr>;
          h1 = h\<lparr>objs := objs h @ [objs h ! args], call_objs := call_objs h @ [tool_call]\<rparr>;
          h2 = (case current_trace self of
                  None \<Rightarrow> h1
                | Some a \<Rightarrow>
                    h1\<lparr>trace_objs := (trace_objs h1)
                         [a := (trace_objs h1 ! a)\<lparr>tool_calls := tool_calls (trace_objs h1 ! a) @ [c]\<rparr>]\<rparr>)
      in (c, self1, h2))"

text \<open>
  \<^verbatim>\<open>tool_call in self.active_tool_calls\<close> and \<^verbatim>\<open>list.remove\<close> compare each element
  with the call: the same object, or an equal one. Equality of a dataclass compares the
  fields in order. How Python's \<^verbatim>\<open>==\<close> decides two argument dicts or two results is up
  to the values' classes: \<open>veq\<close>, an input of the model, taken to return.
\<close>

definition tool_call_eq ::
  "(pyobj list \<Rightarrow> pyval \<Rightarrow> pyval \<Rightarrow> bool) \<Rightarrow> store \<Rightarrow> nat \<Rightarrow> nat \<Rightarrow> bool" where
  "tool_call_eq veq h a b =
     (a = b \<or>
      (let x = call_objs h ! a; y = call_objs h ! b
       in tool_name x = tool_name y \<and>
          veq (objs h) (PRef (arguments x)) (PRef (arguments y)) \<and>
          start_time x = start_time y \<and>
          end_time x = end_time y \<and>
          duration_ms x = duration_ms y \<and>
          veq (objs h) (result x) (result y) \<and>
          error x = error y \<and>
          status x = status y \<and>
          call_stack_depth x = call_stack_depth y))"

fun remove_first :: "('a \<Rightarrow> bool) \<Rightarrow> 'a list \<Rightarrow> 'a list" where
  "remove_first P [] = []"
| "remove_first P (x # xs) = (if P x then xs else x # remove_first P xs)"

text \<open>
  \<^verbatim>\<open>end_tool_call\<close>. \<^verbatim>\<open>if tool_call.start_time and tool_call.end_time:\<close> holds when
  neither reading is zero; \<^verbatim>\<open>if error:\<close> holds for a string that is not empty.
\<close>

definition end_tool_call ::
  "(pyobj list \<Rightarrow> pyval \<Rightarrow> pyval \<Rightarrow> bool) \<Rightarrow> ToolCallTracer \<Rightarrow> store \<Rightarrow> nat \<Rightarrow> pyval
    \<Rightarrow> string option \<Rightarrow> real \<Rightarrow> ToolCallTracer \<times> store" where
  "end_tool_call veq self h c res err now =
     (let tc0 = call_objs h ! c;
          tc1 = tc0\<lparr>end_time := Some now\<rparr>;
          tc2 = (if start_time tc1 \<noteq> 0 \<and> now \<noteq> 0
                 then tc1\<lparr>duration_ms := Some ((now - start_time tc1) * 1000)\<rparr>
                 else tc1);
          tc3 = (if err \<noteq> None \<and> err \<noteq> Some []
                 then tc2\<lparr>status := ''failed'', error := err\<rparr>
                 else tc2\<lparr>status := ''success'', result := res\<rparr>);
          h1 = h\<lparr>call_objs := (call_objs h)[c := tc3]\<rparr>;
          active = (if list_ex (\<lambda>a. tool_call_eq veq h1 a c) (active_tool_calls self)
                    then remove_first (\<lambda>a. tool_call_eq veq h1 a c) (active_tool_calls self)
                    else active_tool_calls self)
      in (self\<lparr>active_tool_calls := active, stack_depth := max 0 (stack_depth self - 1)\<rparr>, h1))"

text \<open>
  \<^verbatim>\<open>get_tool_call_stats\<close>. The two list comprehensions, on the addresses of the
  current trace's calls.
\<close>

definition successful_calls :: "store \<Rightarrow> nat list \<Rightarrow> nat list" where
  "successful_calls h cs = filter (\<lambda>c. status (call_objs h ! c) = ''success'') cs"

definition failed_calls :: "store \<Rightarrow> nat list \<Rightarrow> nat list" where
  "failed_calls h cs = filter (\<lambda>c. status (call_objs h ! c) = ''failed'') cs"

record timing_stats =
  total_ms :: real
  average_ms :: real
  min_ms :: real
  max_ms :: real

record tool_stats =
  count :: nat
  success :: nat
  failed_count :: nat
  total_duration :: real

record call_stats =
  total_calls :: nat
  successful :: nat
  failed :: nat
  tools_used :: "string set"
  timing :: "timing_stats option"
  by_tool :: "(string \<times> tool_stats) list"

text \<open>
  The loop over the calls that fills \<^verbatim>\<open>tool_stats\<close>, a dict in insertion order:
  a new name gets a zero entry at the end, then the entry is counted up.
  \<^verbatim>\<open>if tc.duration_ms:\<close> skips \<^verbatim>\<open>None\<close> and zero.
\<close>

definition count_call :: "ToolCall \<Rightarrow> tool_stats \<Rightarrow> tool_stats" where
  "count_call tc s =
     (let s1 = s\<lparr>count := count s + 1\<rparr>;
          s2 = (if status tc = ''success'' then s1\<lparr>success := success s1 + 1\<rparr>
                else if status tc = ''failed'' then s1\<lparr>failed_count := failed_count s1 + 1\<rparr>
                else s1)
      in case duration_ms tc of
           None \<Rightarrow> s2
         | Some d \<Rightarrow> if d \<noteq> 0 then s2\<lparr>total_duration := total_duration s2 + d\<rparr> else s2)"

fun per_tool :: "ToolCall list \<Rightarrow> (string \<times> tool_stats) list \<Rightarrow> (string \<times> tool_stats) list" where
  "per_tool [] acc = acc"
| "per_tool (tc # tcs) acc =
     (let acc1 = (if tool_name tc \<in> fst ` set acc then acc
                  else acc @ [(tool_name tc,
                         \<lparr>count = 0, success = 0, failed_count = 0, total_duration = 0\<rparr>)])
      in per_tool tcs (map (\<lambda>(n, s). if n = tool_name tc then (n, count_call tc s) else (n, s)) acc1))"

definition get_tool_call_stats :: "ToolCallTracer \<Rightarrow> store \<Rightarrow> string + call_stats" where
  "get_tool_call_stats self h =
     (case current_trace self of
        None \<Rightarrow> Inl ''No active trace''
      | Some a \<Rightarrow>
          (let cs = tool_calls (trace_objs h ! a);
               tcs = map (\<lambda>c. call_objs h ! c) cs;
               durations = concat (map (\<lambda>tc. case duration_ms tc of None \<Rightarrow> [] | Some d \<Rightarrow> [d]) tcs)
           in Inr \<lparr>total_calls = length cs,
                   successful = length (successful_calls h cs),
                   failed = length (failed_calls h cs),
                   tools_used = set (map tool_name tcs),
                   timing = (if durations = [] then None
                             else Some \<lparr>total_ms = sum_list durations,
                                        average_ms = sum_list durations / real (length durations),
                                        min_ms = Min (set durations),
                                        max_ms = Max (set durations)\<rparr>),
                   by_tool = per_tool tcs []\<rparr>))"

text \<open>The calls the host makes on one tracer, with the clock reading of each.\<close>

datatype tracer_call =
    StartTrace string real
  | EndTrace real
  | StartToolCall string nat real
  | EndToolCall nat pyval "string option" real

fun run_call ::
  "(pyobj list \<Rightarrow> pyval \<Rightarrow> pyval \<Rightarrow> bool) \<Rightarrow> ToolCallTracer \<times> store \<Rightarrow> tracer_call
    \<Rightarrow> ToolCallTracer \<times> store" where
  "run_call veq (self, h) (StartTrace tid now) = snd (start_trace self h tid now)"
| "run_call veq (self, h) (EndTrace now) = snd (end_trace self h now)"
| "run_call veq (self, h) (StartToolCall tname args now) = snd (start_tool_call self h tname args now)"
| "run_call veq (self, h) (EndToolCall c res err now) = end_tool_call veq self h c res err now"

definition run_calls ::
  "(pyobj list \<Rightarrow> pyval \<Rightarrow> pyval \<Rightarrow> bool) \<Rightarrow> ToolCallTracer \<times> store \<Rightarrow> tracer_call list
    \<Rightarrow> ToolCallTracer \<times> store" where
  "run_calls veq s cs = foldl (run_call veq) s cs"

text \<open>
  Well-nested calls: the tool calls open at a moment form a stack, innermost first; a
  start pushes the call it creates (whose address is the next free one), an end must
  close the innermost open call. \<open>nesting\<close> returns the stack left by a list of calls,
  or \<open>None\<close> when an end does not match.
\<close>

fun nesting :: "nat list \<Rightarrow> nat \<Rightarrow> tracer_call list \<Rightarrow> nat list option" where
  "nesting st n [] = Some st"
| "nesting st n (StartToolCall tname args now # cs) = nesting (n # st) (n + 1) cs"
| "nesting st n (EndToolCall c res err now # cs) =
     (case st of [] \<Rightarrow> None | a # st1 \<Rightarrow> if c = a then nesting st1 n cs else None)"
| "nesting st n (StartTrace tid now # cs) = nesting st n cs"
| "nesting st n (EndTrace now # cs) = nesting st n cs"

definition recorded_depth :: "store \<Rightarrow> nat \<Rightarrow> int" where
  "recorded_depth h a = call_stack_depth (call_objs h ! a)"

subsection \<open>Notions and example inputs for the statements\<close>

definition shallow_eq :: "pyobj list \<Rightarrow> pyval \<Rightarrow> pyval \<Rightarrow> bool" where
  "shallow_eq os a b =
     (a = b \<or> (case (a, b) of (PRef x, PRef y) \<Rightarrow> os ! x = os ! y | _ \<Rightarrow> False))"

definition query_store :: store where
  "query_store = empty_store\<lparr>objs := [PDict [(''q'', PStr ''hive'')]]\<rparr>"

definition nested_calls :: "tracer_call list" where
  "nested_calls = [StartToolCall ''search'' 0 10, StartToolCall ''fetch'' 0 11]"

definition closed_calls :: "tracer_call list" where
  "closed_calls = nested_calls @ [EndToolCall 1 (PStr ''page'') None 12, EndToolCall 0 PNone (Some ''timeout'') 13]"

text \<open>
  What every state reached through the tracer's methods satisfies: the active calls are
  distinct objects of the store, all pending.
\<close>

definition tracer_inv :: "ToolCallTracer \<Rightarrow> store \<Rightarrow> bool" where
  "tracer_inv self h =
     (distinct (active_tool_calls self) \<and>
      list_all (\<lambda>a. a < length (call_objs h) \<and> status (call_objs h ! a) = ''pending'')
        (active_tool_calls self))"

text \<open>The call object that \<^verbatim>\<open>end_tool_call\<close> leaves behind.\<close>

definition ended_call ::
  "(pyobj list \<Rightarrow> pyval \<Rightarrow> pyval \<Rightarrow> bool) \<Rightarrow> ToolCallTracer \<Rightarrow> store \<Rightarrow> nat \<Rightarrow> pyval
    \<Rightarrow> string option \<Rightarrow> real \<Rightarrow> ToolCall" where
  "ended_call veq self h c res err now =
     call_objs (snd (end_tool_call veq self h c res err now)) ! c"

definition search_started :: "ToolCallTracer \<times> store" where
  "search_started = run_calls shallow_eq (new_ToolCallTracer True, query_store)
     [StartTrace ''cli-trace-1'' 5, StartToolCall ''search'' 0 10]"

text \<open>
  The value a reference stands for, read through the store down to a given depth: what
  printing or serialising the recorded arguments shows.
\<close>

datatype pytree =
    TNone | TInt int | TStr string | TList "pytree list" | TDict "(string \<times> pytree) list" | TCut

fun deep_value :: "nat \<Rightarrow> pyobj list \<Rightarrow> pyval \<Rightarrow> pytree" where
  "deep_value n os PNone = TNone"
| "deep_value n os (PInt i) = TInt i"
| "deep_value n os (PStr s) = TStr s"
| "deep_value 0 os (PRef a) = TCut"
| "deep_value (Suc n) os (PRef a) =
     (if a < length os
      then (case os ! a of
              PList vs \<Rightarrow> TList (map (deep_value n os) vs)
            | PDict kvs \<Rightarrow> TDict (map (\<lambda>kv. (fst kv, deep_value n os (snd kv))) kvs))
      else TCut)"

definition nested_store :: store where
  "nested_store = empty_store\<lparr>objs := [PList [PInt 1], PDict [(''ids'', PRef 0)]]\<rparr>"

section \<open>Properties of StateInspector\<close>

lemma first_with_step_Some:
  "first_with_step ss k = Some s \<Longrightarrow> s \<in> set ss \<and> step s = k"
  by (induction ss) (auto split: if_splits)

lemma first_with_step_None:
  "first_with_step ss k = None \<longleftrightarrow> k \<notin> step ` set ss"
  by (induction ss) auto




lemma compare_snapshots_found:
  assumes "get_snapshot self s1 = Some x" and "get_snapshot self s2 = Some y"
  shows "compare_snapshots self s1 s2 =
           CompareDiff (set (context_keys y) - set (context_keys x))
             (set (context_keys x) - set (context_keys y))
             (set (context_keys x) \<inter> set (context_keys y)) (s2 - s1)"
  using assms by (simp add: compare_snapshots_def Let_def)

lemma compare_snapshots_missing:
  assumes "get_snapshot self s1 = None \<or> get_snapshot self s2 = None"
  shows "compare_snapshots self s1 s2 = CompareError ''One or both snapshots not found''"
  using assms by (auto simp: compare_snapshots_def split: option.splits)

text \<open>
  Claim C7. Comparing two steps in both orders: when both steps have a snapshot, the
  added keys of one comparison are the removed keys of the other, the common keys agree
  and the step difference changes sign; when a step has no snapshot, both comparisons
  return the error dict (a value: the function has no raising branch).
\<close>

theorem compare_snapshots_antisymmetric:
  "(s1 \<in> step ` set (snapshots self) \<and> s2 \<in> step ` set (snapshots self) \<longrightarrow>
      (\<exists>a r c d. compare_snapshots self s1 s2 = CompareDiff a r c d \<and>
                 compare_snapshots self s2 s1 = CompareDiff r a c (- d))) \<and>
   (s1 \<notin> step ` set (snapshots self) \<or> s2 \<notin> step ` set (snapshots self) \<longrightarrow>
      compare_snapshots self s1 s2 = CompareError ''One or both snapshots not found'' \<and>
      compare_snapshots self s2 s1 = CompareError ''One or both snapshots not found'')"
proof (intro conjI impI)
  assume "s1 \<in> step ` set (snapshots self) \<and> s2 \<in> step ` set (snapshots self)"
  then obtain x y where x: "get_snapshot self s1 = Some x" and y: "get_snapshot self s2 = Some y"
    using first_with_step_None [of "snapshots self"] by (fastforce simp: get_snapshot_def)
  have "set (context_keys x) \<inter> set (context_keys y) = set (context_keys y) \<inter> set (context_keys x)"
    by (rule Int_commute)
  then show "\<exists>a r c d. compare_snapshots self s1 s2 = CompareDiff a r c d \<and>
                 compare_snapshots self s2 s1 = CompareDiff r a c (- d)"
    by (simp add: compare_snapshots_found [OF x y] compare_snapshots_found [OF y x])
next
  assume "s1 \<notin> step ` set (snapshots self) \<or> s2 \<notin> step ` set (snapshots self)"
  then have "get_snapshot self s1 = None \<or> get_snapshot self s2 = None"
    by (simp add: get_snapshot_def first_with_step_None)
  then show "compare_snapshots self s1 s2 = CompareError ''One or both snapshots not found''"
    and "compare_snapshots self s2 s1 = CompareError ''One or both snapshots not found''"
    by (auto intro: compare_snapshots_missing)
qed

lemma two_snapshots_steps: "step ` set (snapshots two_snapshots) = {1, 2}"
  by (auto simp: two_snapshots_def new_StateInspector_def take_snapshot_def Let_def)

theorem compare_snapshots_antisymmetric_witness:
  "compare_snapshots two_snapshots 1 2 = CompareDiff {''c''} {''a''} {''b''} 1 \<and>
   compare_snapshots two_snapshots 2 1 = CompareDiff {''a''} {''c''} {''b''} (- 1) \<and>
   compare_snapshots two_snapshots 1 7 = CompareError ''One or both snapshots not found'' \<and>
   compare_snapshots two_snapshots 7 1 = CompareError ''One or both snapshots not found''"
proof -
  have found: "compare_snapshots two_snapshots 1 2 = CompareDiff {''c''} {''a''} {''b''} 1"
    by (auto simp: two_snapshots_def new_StateInspector_def take_snapshot_def Let_def
        compare_snapshots_def get_snapshot_def)
  from compare_snapshots_antisymmetric [of 1 two_snapshots 2]
  have "\<exists>a r c d. compare_snapshots two_snapshots 1 2 = CompareDiff a r c d \<and>
                 compare_snapshots two_snapshots 2 1 = CompareDiff r a c (- d)"
    by (simp add: two_snapshots_steps)
  with found have swapped: "compare_snapshots two_snapshots 2 1 = CompareDiff {''a''} {''c''} {''b''} (- 1)"
    by auto
  from compare_snapshots_antisymmetric [of 1 two_snapshots 7]
  have "compare_snapshots two_snapshots 1 7 = CompareError ''One or both snapshots not found'' \<and>
        compare_snapshots two_snapshots 7 1 = CompareError ''One or both snapshots not found''"
    by (simp add: two_snapshots_steps)
  with found swapped show ?thesis by simp
qed




section \<open>Properties of the breakpoints\<close>

text \<open>The id is one per (event kind, target): no value of the enum holds a colon.\<close>

lemma make_bp_id_inject:
  "make_bp_id ty tgt = make_bp_id ty' tgt' \<longleftrightarrow> ty = ty' \<and> tgt = tgt'"
  by (cases ty; cases ty') (simp_all add: make_bp_id_def)

lemma set_breakpoint_stored:
  "breakpoints (snd (set_breakpoint self tgt ty cond)) (make_bp_id ty tgt) =
     Some \<lparr>bp_id = make_bp_id ty tgt, breakpoint_type = ty, target = tgt, condition = cond,
           enabled = True, hit_count = 0\<rparr>"
  by (simp add: set_breakpoint_def Let_def)

lemma should_break_hit:
  assumes "breakpoints self (make_bp_id ty tgt) = Some bp" and "enabled bp"
      and "condition bp = None \<or> condition bp = Some []"
  shows "should_break eval self ty tgt ctx =
           (Returns True,
            self\<lparr>breakpoints := (breakpoints self)(make_bp_id ty tgt \<mapsto> bp\<lparr>hit_count := hit_count bp + 1\<rparr>)\<rparr>)"
  using assms by (auto simp: should_break_def Let_def)

lemma should_break_absent:
  assumes "breakpoints self (make_bp_id ty tgt) = None"
  shows "should_break eval self ty tgt ctx = (Returns False, self)"
  using assms by (simp add: should_break_def Let_def)

lemma should_break_disabled:
  assumes "breakpoints self (make_bp_id ty tgt) = Some bp" and "\<not> enabled bp"
  shows "should_break eval self ty tgt ctx = (Returns False, self)"
  using assms by (simp add: should_break_def Let_def)

lemma should_break_times_hit:
  assumes "breakpoints self (make_bp_id ty tgt) = Some bp" and "enabled bp"
      and "condition bp = None \<or> condition bp = Some []"
  shows "should_break_times n eval self ty tgt ctx =
           (replicate n (Returns True),
            if n = 0 then self
            else self\<lparr>breakpoints := (breakpoints self)(make_bp_id ty tgt \<mapsto> bp\<lparr>hit_count := hit_count bp + int n\<rparr>)\<rparr>)"
  using assms
proof (induction n arbitrary: self bp)
  case 0
  then show ?case by simp
next
  case (Suc n)
  let ?bp = "bp\<lparr>hit_count := hit_count bp + 1\<rparr>"
  let ?self = "self\<lparr>breakpoints := (breakpoints self)(make_bp_id ty tgt \<mapsto> ?bp)\<rparr>"
  have first: "should_break eval self ty tgt ctx = (Returns True, ?self)"
    using Suc.prems by (rule should_break_hit)
  have "breakpoints ?self (make_bp_id ty tgt) = Some ?bp" "enabled ?bp"
       "condition ?bp = None \<or> condition ?bp = Some []"
    using Suc.prems by simp_all
  from Suc.IH [OF this]
  have rest: "should_break_times n eval ?self ty tgt ctx =
           (replicate n (Returns True),
            if n = 0 then ?self
            else ?self\<lparr>breakpoints := (breakpoints ?self)(make_bp_id ty tgt \<mapsto> ?bp\<lparr>hit_count := hit_count ?bp + int n\<rparr>)\<rparr>)" .
  have "should_break_times (Suc n) eval self ty tgt ctx =
          (Returns True # fst (should_break_times n eval ?self ty tgt ctx),
           snd (should_break_times n eval ?self ty tgt ctx))"
    unfolding should_break_times.simps first by (simp add: split_beta)
  also have "\<dots> = (replicate (Suc n) (Returns True),
            self\<lparr>breakpoints := (breakpoints self)(make_bp_id ty tgt \<mapsto> bp\<lparr>hit_count := hit_count bp + int (Suc n)\<rparr>)\<rparr>)"
    unfolding rest by (cases "n = 0") (simp_all add: add.assoc)
  finally show ?case by simp
qed

text \<open>
  Claim C2. A breakpoint stored under the id of (event kind, target), enabled and with
  no condition: \<^verbatim>\<open>_should_break\<close> on that pair returns true and adds exactly one
  to that breakpoint's hit count, every other breakpoint staying as it is; so \<open>n\<close>
  calls return true \<open>n\<close> times and add \<open>n\<close>. With no breakpoint under the id, or a
  disabled one, it returns false and the debugger is unchanged.
\<close>

theorem should_break_unconditional:
  "(breakpoints self (make_bp_id ty tgt) = Some bp \<and> enabled bp \<and> condition bp = None \<longrightarrow>
      should_break eval self ty tgt ctx =
        (Returns True,
         self\<lparr>breakpoints := (breakpoints self)(make_bp_id ty tgt \<mapsto> bp\<lparr>hit_count := hit_count bp + 1\<rparr>)\<rparr>) \<and>
      fst (should_break_times n eval self ty tgt ctx) = replicate n (Returns True) \<and>
      map_option hit_count (breakpoints (snd (should_break_times n eval self ty tgt ctx)) (make_bp_id ty tgt)) =
        Some (hit_count bp + int n)) \<and>
   (breakpoints self (make_bp_id ty tgt) = None \<longrightarrow>
      should_break eval self ty tgt ctx = (Returns False, self)) \<and>
   (breakpoints self (make_bp_id ty tgt) = Some bp \<and> \<not> enabled bp \<longrightarrow>
      should_break eval self ty tgt ctx = (Returns False, self))"
  by (auto simp: should_break_hit should_break_times_hit should_break_absent should_break_disabled)

theorem should_break_unconditional_witness:
  "breakpoints debugger_B (make_bp_id NODE_ENTER ''B'') =
     Some \<lparr>bp_id = ''node_enter:B'', breakpoint_type = NODE_ENTER, target = ''B'', condition = None,
           enabled = True, hit_count = 0\<rparr> \<and>
   fst (should_break always_truthy debugger_B NODE_ENTER ''B'' ()) = Returns True \<and>
   fst (should_break_times 3 always_truthy debugger_B NODE_ENTER ''B'' ()) =
     [Returns True, Returns True, Returns True] \<and>
   map_option hit_count
     (breakpoints (snd (should_break_times 3 always_truthy debugger_B NODE_ENTER ''B'' ()))
        (make_bp_id NODE_ENTER ''B'')) = Some 3 \<and>
   breakpoints debugger_B (make_bp_id NODE_EXIT ''B'') = None \<and>
   should_break always_truthy debugger_B NODE_EXIT ''B'' () = (Returns False, debugger_B)"
proof -
  let ?bp = "\<lparr>bp_id = ''node_enter:B'', breakpoint_type = NODE_ENTER, target = ''B'', condition = None,
           enabled = True, hit_count = 0\<rparr>"
  have stored: "breakpoints debugger_B (make_bp_id NODE_ENTER ''B'') = Some ?bp"
    by (simp add: debugger_B_def set_breakpoint_def Let_def make_bp_id_def)
  have absent: "breakpoints debugger_B (make_bp_id NODE_EXIT ''B'') = None"
    by (simp add: debugger_B_def set_breakpoint_def Let_def make_bp_id_def new_AgentDebugger_def)
  have three: "replicate 3 (Returns True) = [Returns True, Returns True, Returns (True::bool)]"
    by (simp add: numeral_3_eq_3)
  from should_break_unconditional [of debugger_B NODE_ENTER "''B''" ?bp always_truthy "()" 3] stored
  have hit: "fst (should_break always_truthy debugger_B NODE_ENTER ''B'' ()) = Returns True \<and>
      fst (should_break_times 3 always_truthy debugger_B NODE_ENTER ''B'' ()) =
        [Returns True, Returns True, Returns True] \<and>
      map_option hit_count
        (breakpoints (snd (should_break_times 3 always_truthy debugger_B NODE_ENTER ''B'' ()))
          (make_bp_id NODE_ENTER ''B'')) = Some 3"
    by (simp add: three)
  from should_break_unconditional [of debugger_B NODE_EXIT "''B''" ?bp always_truthy "()" 0] absent
  have "should_break always_truthy debugger_B NODE_EXIT ''B'' () = (Returns False, debugger_B)"
    by simp
  with stored absent hit show ?thesis by simp
qed

text \<open>
  Claim C5. An enabled breakpoint whose condition raises an error (an exception derived
  from \<^verbatim>\<open>Exception\<close>), or evaluates to a false value: \<^verbatim>\<open>_should_break\<close>
  returns false, nothing propagates, and the debugger (every hit count with it) is
  unchanged.
\<close>

theorem should_break_condition_fails:
  assumes "breakpoints self (make_bp_id ty tgt) = Some bp" and "enabled bp"
      and "condition bp = Some c" and "c \<noteq> []"
      and "eval c ctx = RaisesException \<or> eval c ctx = Falsy"
  shows "should_break eval self ty tgt ctx = (Returns False, self)"
  using assms by (auto simp: should_break_def Let_def)

theorem should_break_condition_fails_witness:
  "should_break eval_example debugger_cond NODE_ENTER ''B'' [] = (Returns False, debugger_cond) \<and>
   should_break eval_example debugger_cond NODE_ENTER ''B'' [0] = (Returns False, debugger_cond) \<and>
   map_option hit_count (breakpoints debugger_cond (make_bp_id NODE_ENTER ''B'')) = Some 0"
proof -
  let ?bp = "\<lparr>bp_id = make_bp_id NODE_ENTER ''B'', breakpoint_type = NODE_ENTER, target = ''B'',
              condition = Some ''context[0] > 1'', enabled = True, hit_count = 0\<rparr>"
  have stored: "breakpoints debugger_cond (make_bp_id NODE_ENTER ''B'') = Some ?bp"
    by (simp add: debugger_cond_def set_breakpoint_stored)
  have "should_break eval_example debugger_cond NODE_ENTER ''B'' [] = (Returns False, debugger_cond)"
    by (rule should_break_condition_fails [OF stored, of "''context[0] > 1''"]) simp_all
  moreover
  have "should_break eval_example debugger_cond NODE_ENTER ''B'' [0] = (Returns False, debugger_cond)"
    by (rule should_break_condition_fails [OF stored, of "''context[0] > 1''"]) simp_all
  ultimately show ?thesis using stored by simp
qed

section \<open>Properties of GraphVisualizer\<close>


lemma walk_tail: "walk es (u # v # p) \<Longrightarrow> walk es (v # p)"
  by simp

















lemma dashed_iff_upper_case:
  "''style='' @ dq @ ''dashed'' @ dq \<in> set (dot_edge_attrs edge) \<longleftrightarrow>
     sublist ''CONDITIONAL'' (condition_text (edge_condition edge))"
  by (auto simp: dot_edge_attrs_def Let_def dq_def)

lemma conditional_no_match: "\<not> sublist ''CONDITIONAL'' ''conditional''"
  by code_simp

lemma on_success_no_match: "\<not> sublist ''CONDITIONAL'' ''on_success''"
  by code_simp

lemma render_dot_two_edge_graph:
  "render_dot two_edge_graph = join newline
     [''digraph Agent {'',
      ''    rankdir=TD;'',
      ''    node [shape=box, style=rounded];'',
      [],
      ''    A [label='' @ dq @ ''Alpha'' @ backslash_n @ ''(llm)'' @ dq @ '', style='' @ dq @ ''rounded,bold'' @ dq @
         '', color='' @ dq @ ''blue'' @ dq @ ''];'',
      ''    B [label='' @ dq @ ''Beta'' @ backslash_n @ ''(llm)'' @ dq @ ''];'',
      ''    C [label='' @ dq @ ''Gamma'' @ backslash_n @ ''(function)'' @ dq @ ''];'',
      [],
      ''    A -> B [label='' @ dq @ ''on_success'' @ dq @ ''];'',
      ''    B -> C [label='' @ dq @ ''conditional'' @ backslash_n @ ''x>0'' @ dq @ ''];'',
      ''}'']"
  by (simp add: render_dot_def two_edge_graph_def abc_nodes_def mk_node_def mk_edge_def
      dot_node_line_def dot_node_attrs_def dot_edge_line_def dot_edge_attrs_def Let_def
      ON_SUCCESS_def CONDITIONAL_def conditional_no_match on_success_no_match)

text \<open>
  Claim C8. The source tests \<^verbatim>\<open>"CONDITIONAL" in condition\<close>, in upper case, against the
  condition's value, which is in lower case: on the two-edge graph of the claim the line
  of the edge from B to C carries a label only, and no line of the output is dashed.
\<close>

theorem render_dot_conditional_not_dashed:
  "dot_edge_line (mk_edge ''bc'' ''B'' ''C'' CONDITIONAL (Some ''x>0'')) =
     ''    B -> C [label='' @ dq @ ''conditional'' @ backslash_n @ ''x>0'' @ dq @ ''];'' \<and>
   \<not> sublist ''dashed'' (render_dot two_edge_graph)"
proof -
  have "\<not> sublist ''dashed'' (render_dot two_edge_graph)"
    unfolding render_dot_two_edge_graph by code_simp
  then show ?thesis
    by (simp add: mk_edge_def dot_edge_line_def dot_edge_attrs_def Let_def CONDITIONAL_def
        conditional_no_match)
qed

lemma render_dot_upper_case_dashed:
  "dot_edge_line (mk_edge ''bc'' ''B'' ''C'' (HasValue ''CONDITIONAL'') (Some ''x>0'')) =
     ''    B -> C [label='' @ dq @ ''CONDITIONAL'' @ backslash_n @ ''x>0'' @ dq @ '', style='' @ dq @
       ''dashed'' @ dq @ ''];''"
  by (simp add: mk_edge_def dot_edge_line_def dot_edge_attrs_def Let_def)

section \<open>Properties of ToolCallTracer\<close>

lemma start_tool_call_calls:
  "call_objs (snd (snd (start_tool_call self h tname args now))) =
     call_objs h @ [\<lparr>tool_name = tname, arguments = length (objs h), start_time = now,
                     end_time = None, duration_ms = None, result = PNone, error = None,
                     status = ''pending'', call_stack_depth = stack_depth self\<rparr>]"
  by (simp add: start_tool_call_def Let_def split: option.splits)

lemma start_tool_call_self:
  "fst (snd (start_tool_call self h tname args now)) =
     self\<lparr>active_tool_calls := active_tool_calls self @ [length (call_objs h)],
          stack_depth := stack_depth self + 1\<rparr>"
  by (simp add: start_tool_call_def Let_def)

lemma start_tool_call_fst:
  "fst (start_tool_call self h tname args now) = length (call_objs h)"
  by (simp add: start_tool_call_def Let_def)

lemma end_tool_call_depth:
  "stack_depth (fst (end_tool_call veq self h c res err now)) = max 0 (stack_depth self - 1)"
  by (simp add: end_tool_call_def Let_def)

lemma end_tool_call_length:
  "length (call_objs (snd (end_tool_call veq self h c res err now))) = length (call_objs h)"
  by (simp add: end_tool_call_def Let_def)

lemma end_tool_call_recorded_depth:
  "recorded_depth (snd (end_tool_call veq self h c res err now)) a = recorded_depth h a"
proof (cases "a = c \<and> c < length (call_objs h)")
  case True
  then show ?thesis
    by (simp add: end_tool_call_def Let_def recorded_depth_def)
next
  case False
  then have "(call_objs h)[c := x] ! a = call_objs h ! a" for x
    by (cases "a = c") (simp_all add: list_update_beyond)
  then show ?thesis
    by (simp add: end_tool_call_def Let_def recorded_depth_def)
qed

lemma start_trace_frame:
  "call_objs (snd (snd (start_trace self h tid now))) = call_objs h"
  "stack_depth (fst (snd (start_trace self h tid now))) = stack_depth self"
  by (simp_all add: start_trace_def Let_def)

lemma end_trace_frame:
  "call_objs (snd (snd (end_trace self h now))) = call_objs h"
  "stack_depth (fst (snd (end_trace self h now))) = stack_depth self"
  by (simp_all add: end_trace_def Let_def split: option.splits)

lemma run_calls_Cons:
  "run_calls veq s (c # cs) = run_calls veq (run_call veq s c) cs"
  by (simp add: run_calls_def)

lemma run_calls_Nil: "run_calls veq s [] = s"
  by (simp add: run_calls_def)

lemma run_call_depth_nonneg:
  "0 \<le> stack_depth (fst s) \<Longrightarrow> 0 \<le> stack_depth (fst (run_call veq s c))"
  by (cases s; cases c)
     (simp_all add: start_trace_frame end_trace_frame start_tool_call_self end_tool_call_depth)

lemma run_calls_depth_nonneg:
  "0 \<le> stack_depth (fst s) \<Longrightarrow> 0 \<le> stack_depth (fst (run_calls veq s cs))"
  by (induction cs arbitrary: s) (simp_all add: run_calls_Nil run_calls_Cons run_call_depth_nonneg)

lemma nesting_depths:
  assumes "nesting st (length (call_objs h)) cs = Some st'"
      and "run_calls veq (self, h) cs = (self', h')"
      and "\<forall>a\<in>set st. a < length (call_objs h)"
      and "stack_depth self = d0 + int (length st)" and "0 \<le> d0"
      and "map (recorded_depth h) (rev st) = map (\<lambda>i. d0 + int i) [0..<length st]"
  shows "stack_depth self' = d0 + int (length st') \<and>
         map (recorded_depth h') (rev st') = map (\<lambda>i. d0 + int i) [0..<length st']"
  using assms
proof (induction cs arbitrary: st self h)
  case Nil
  then show ?case by (simp add: run_calls_Nil)
next
  case (Cons c cs)
  obtain self1 h1 where step: "run_call veq (self, h) c = (self1, h1)"
    by (cases "run_call veq (self, h) c")
  with Cons.prems(2) have run: "run_calls veq (self1, h1) cs = (self', h')"
    by (simp add: run_calls_Cons)
  show ?case
  proof (cases c)
    case (StartTrace tid now)
    with step have same: "call_objs h1 = call_objs h" "stack_depth self1 = stack_depth self"
      using start_trace_frame [of self h tid now] by simp_all
    then have "recorded_depth h1 = recorded_depth h"
      by (simp add: recorded_depth_def fun_eq_iff)
    with Cons.IH [of st h1 self1] Cons.prems StartTrace same run show ?thesis
      by simp
  next
    case (EndTrace now)
    with step have same: "call_objs h1 = call_objs h" "stack_depth self1 = stack_depth self"
      using end_trace_frame [of self h now] by simp_all
    then have "recorded_depth h1 = recorded_depth h"
      by (simp add: recorded_depth_def fun_eq_iff)
    with Cons.IH [of st h1 self1] Cons.prems EndTrace same run show ?thesis
      by simp
  next
    case (StartToolCall tname args now)
    let ?n = "length (call_objs h)"
    from step StartToolCall have h1: "call_objs h1 = call_objs h @
        [\<lparr>tool_name = tname, arguments = length (objs h), start_time = now,
          end_time = None, duration_ms = None, result = PNone, error = None,
          status = ''pending'', call_stack_depth = stack_depth self\<rparr>]"
      and self1: "stack_depth self1 = stack_depth self + 1"
      using start_tool_call_calls [of self h tname args now]
        start_tool_call_self [of self h tname args now] by simp_all
    have old: "recorded_depth h1 a = recorded_depth h a" if "a < ?n" for a
      using that by (simp add: recorded_depth_def h1 nth_append)
    have new: "recorded_depth h1 ?n = d0 + int (length st)"
      by (simp add: recorded_depth_def h1 Cons.prems(4))
    have "map (recorded_depth h1) (rev st) = map (recorded_depth h) (rev st)"
      using Cons.prems(3) old by simp
    with new Cons.prems(6)
    have depths: "map (recorded_depth h1) (rev (?n # st)) = map (\<lambda>i. d0 + int i) [0..<length (?n # st)]"
      by simp
    have valid: "\<forall>a\<in>set (?n # st). a < length (call_objs h1)"
      using Cons.prems(3) by (auto simp: h1)
    have nest: "nesting (?n # st) (length (call_objs h1)) cs = Some st'"
      using Cons.prems(1) StartToolCall by (simp add: h1)
    have "stack_depth self1 = d0 + int (length (?n # st))"
      using self1 Cons.prems(4) by simp
    from Cons.IH [OF nest run valid this Cons.prems(5) depths] show ?thesis .
  next
    case (EndToolCall a res err now)
    with Cons.prems(1) obtain st1 where st: "st = a # st1"
      and nest: "nesting st1 (length (call_objs h)) cs = Some st'"
      by (auto split: list.splits if_splits)
    from step EndToolCall have self1: "stack_depth self1 = max 0 (stack_depth self - 1)"
      and len: "length (call_objs h1) = length (call_objs h)"
      and same: "recorded_depth h1 = recorded_depth h"
      using end_tool_call_depth [of veq self h a res err now]
        end_tool_call_length [of veq self h a res err now]
        end_tool_call_recorded_depth [of veq self h a res err now]
      by (simp_all add: fun_eq_iff)
    have depth1: "stack_depth self1 = d0 + int (length st1)"
      using self1 Cons.prems(4,5) st by simp
    have valid: "\<forall>b\<in>set st1. b < length (call_objs h1)"
      using Cons.prems(3) st len by simp
    have depths: "map (recorded_depth h1) (rev st1) = map (\<lambda>i. d0 + int i) [0..<length st1]"
      using Cons.prems(6) st same by simp
    from Cons.IH [OF _ run valid depth1 Cons.prems(5) depths] nest len show ?thesis
      by simp
  qed
qed

text \<open>
  Claim C1. \<^verbatim>\<open>start_tool_call\<close> stamps the call with the tracer's depth as it is before
  the increment and then adds one. After any well-nested list of calls the tracer's depth
  is its depth before plus the number of calls still open, and the depths recorded on the
  open calls, outermost first, count up from the depth before by one per level: nested
  calls record strictly increasing depths, and when every call is closed the depth is back
  at its value before (0 for a new tracer). After any list of calls at all, ends with no
  matching start included, the depth is not negative.
\<close>

theorem call_stack_depth_nesting:
  "recorded_depth (snd (snd (start_tool_call self h tname args now)))
     (fst (start_tool_call self h tname args now)) = stack_depth self \<and>
   stack_depth (fst (snd (start_tool_call self h tname args now))) = stack_depth self + 1 \<and>
   (0 \<le> stack_depth self \<and> nesting [] (length (call_objs h)) cs = Some st \<longrightarrow>
      stack_depth (fst (run_calls veq (self, h) cs)) = stack_depth self + int (length st) \<and>
      map (recorded_depth (snd (run_calls veq (self, h) cs))) (rev st) =
        map (\<lambda>i. stack_depth self + int i) [0..<length st]) \<and>
   (0 \<le> stack_depth self \<longrightarrow> 0 \<le> stack_depth (fst (run_calls veq (self, h) cs')))"
proof (intro conjI impI)
  show "recorded_depth (snd (snd (start_tool_call self h tname args now)))
     (fst (start_tool_call self h tname args now)) = stack_depth self"
    by (simp add: recorded_depth_def start_tool_call_calls start_tool_call_fst)
  show "stack_depth (fst (snd (start_tool_call self h tname args now))) = stack_depth self + 1"
    by (simp add: start_tool_call_self)
  show "0 \<le> stack_depth (fst (run_calls veq (self, h) cs'))" if "0 \<le> stack_depth self"
    using run_calls_depth_nonneg [of "(self, h)" veq cs'] that by simp
next
  assume a: "0 \<le> stack_depth self \<and> nesting [] (length (call_objs h)) cs = Some st"
  have run: "run_calls veq (self, h) cs =
      (fst (run_calls veq (self, h) cs), snd (run_calls veq (self, h) cs))"
    by simp
  from a have nest: "nesting [] (length (call_objs h)) cs = Some st" and d0: "0 \<le> stack_depth self"
    by simp_all
  from nesting_depths [OF nest run _ _ d0]
  show "stack_depth (fst (run_calls veq (self, h) cs)) = stack_depth self + int (length st)"
    and "map (recorded_depth (snd (run_calls veq (self, h) cs))) (rev st) =
        map (\<lambda>i. stack_depth self + int i) [0..<length st]"
    by simp_all
qed

theorem call_stack_depth_nesting_witness:
  "nesting [] 0 nested_calls = Some [1, 0] \<and>
   stack_depth (fst (run_calls shallow_eq (new_ToolCallTracer True, query_store) nested_calls)) = 2 \<and>
   map (recorded_depth (snd (run_calls shallow_eq (new_ToolCallTracer True, query_store) nested_calls)))
     [0, 1] = [0, 1] \<and>
   nesting [] 0 closed_calls = Some [] \<and>
   stack_depth (fst (run_calls shallow_eq (new_ToolCallTracer True, query_store) closed_calls)) = 0 \<and>
   0 \<le> stack_depth (fst (run_calls shallow_eq (new_ToolCallTracer True, query_store)
          (closed_calls @ [EndToolCall 0 PNone None 14])))"
proof -
  have start: "stack_depth (new_ToolCallTracer True) = 0" "length (call_objs query_store) = 0"
    by (simp_all add: new_ToolCallTracer_def query_store_def empty_store_def)
  have n1: "nesting [] 0 nested_calls = Some [1, 0]"
    by (simp add: nested_calls_def)
  have n2: "nesting [] 0 closed_calls = Some []"
    by (simp add: closed_calls_def nested_calls_def)
  note inst = call_stack_depth_nesting [of "new_ToolCallTracer True" query_store _ _ _ _ _ shallow_eq]
  from inst [of _ _ _ nested_calls "[1, 0]"] n1 start
  have "stack_depth (fst (run_calls shallow_eq (new_ToolCallTracer True, query_store) nested_calls)) = 2"
    and "map (recorded_depth (snd (run_calls shallow_eq (new_ToolCallTracer True, query_store) nested_calls)))
     [0, 1] = [0, 1]"
    by (simp_all add: upt_rec)
  moreover from inst [of _ _ _ closed_calls "[]" "closed_calls @ [EndToolCall 0 PNone None 14]"] n2 start
  have "stack_depth (fst (run_calls shallow_eq (new_ToolCallTracer True, query_store) closed_calls)) = 0"
    and "0 \<le> stack_depth (fst (run_calls shallow_eq (new_ToolCallTracer True, query_store)
          (closed_calls @ [EndToolCall 0 PNone None 14])))"
    by simp_all
  ultimately show ?thesis using n1 n2 by simp
qed

lemma remove_first_set: "set (remove_first P xs) \<subseteq> set xs"
  by (induction xs) auto

lemma remove_first_distinct: "distinct xs \<Longrightarrow> distinct (remove_first P xs)"
  using remove_first_set [of P] by (induction xs) auto

lemma remove_first_only:
  "distinct xs \<Longrightarrow> P c \<Longrightarrow> (\<And>a. a \<in> set xs \<Longrightarrow> a \<noteq> c \<Longrightarrow> \<not> P a) \<Longrightarrow>
     set (remove_first P xs) = set xs - {c}"
  by (induction xs) auto

lemma ended_call_failed:
  assumes "c < length (call_objs h)" and "err = Some e" and "e \<noteq> []"
  shows "status (ended_call veq self h c res err now) = ''failed''"
    and "error (ended_call veq self h c res err now) = Some e"
  using assms by (simp_all add: ended_call_def end_tool_call_def Let_def)

lemma ended_call_success:
  assumes "c < length (call_objs h)" and "err = None \<or> err = Some []"
  shows "status (ended_call veq self h c res err now) = ''success''"
    and "result (ended_call veq self h c res err now) = res"
  using assms by (auto simp: ended_call_def end_tool_call_def Let_def)

lemma ended_call_times:
  assumes "c < length (call_objs h)"
  shows "end_time (ended_call veq self h c res err now) = Some now"
    and "start_time (ended_call veq self h c res err now) = start_time (call_objs h ! c)"
    and "start_time (call_objs h ! c) \<noteq> 0 \<Longrightarrow> now \<noteq> 0 \<Longrightarrow>
           duration_ms (ended_call veq self h c res err now) =
             Some ((now - start_time (call_objs h ! c)) * 1000)"
  using assms by (simp_all add: ended_call_def end_tool_call_def Let_def)

lemma end_tool_call_others:
  "a \<noteq> c \<Longrightarrow> call_objs (snd (end_tool_call veq self h c res err now)) ! a = call_objs h ! a"
  by (simp add: end_tool_call_def Let_def)

lemma end_tool_call_traces:
  "trace_objs (snd (end_tool_call veq self h c res err now)) = trace_objs h"
  "current_trace (fst (end_tool_call veq self h c res err now)) = current_trace self"
  by (simp_all add: end_tool_call_def Let_def)

lemma ended_call_not_pending:
  assumes "c < length (call_objs h)"
  shows "status (ended_call veq self h c res err now) \<noteq> ''pending''"
  using assms by (simp add: ended_call_def end_tool_call_def Let_def)

lemma end_tool_call_active:
  assumes "tracer_inv self h" and "c < length (call_objs h)"
  shows "set (active_tool_calls (fst (end_tool_call veq self h c res err now))) =
           set (active_tool_calls self) - {c}"
proof -
  let ?h1 = "snd (end_tool_call veq self h c res err now)"
  let ?P = "\<lambda>a. tool_call_eq veq ?h1 a c"
  have others: "\<not> ?P a" if "a \<in> set (active_tool_calls self)" "a \<noteq> c" for a
  proof -
    from that assms(1) have "status (call_objs h ! a) = ''pending''"
      by (simp add: tracer_inv_def list_all_iff)
    with that(2) have "status (call_objs ?h1 ! a) = ''pending''"
      by (simp add: end_tool_call_others)
    moreover have "status (call_objs ?h1 ! c) \<noteq> ''pending''"
      using ended_call_not_pending [OF assms(2), of veq self res err now]
      by (simp add: ended_call_def)
    ultimately show ?thesis
      using that(2) by (auto simp: tool_call_eq_def Let_def)
  qed
  have self: "?P c" by (simp add: tool_call_eq_def)
  have dist: "distinct (active_tool_calls self)"
    using assms(1) by (simp add: tracer_inv_def)
  have active: "active_tool_calls (fst (end_tool_call veq self h c res err now)) =
      (if list_ex ?P (active_tool_calls self) then remove_first ?P (active_tool_calls self)
       else active_tool_calls self)"
    by (simp add: end_tool_call_def Let_def)
  show ?thesis
  proof (cases "c \<in> set (active_tool_calls self)")
    case True
    with self have "list_ex ?P (active_tool_calls self)"
      by (auto simp: list_ex_iff)
    with active remove_first_only [of "active_tool_calls self" ?P c, OF dist self others]
    show ?thesis by simp
  next
    case False
    with others have "\<not> list_ex ?P (active_tool_calls self)"
      by (auto simp: list_ex_iff)
    with active False show ?thesis by simp
  qed
qed

lemma end_tool_call_inv:
  assumes "tracer_inv self h"
  shows "tracer_inv (fst (end_tool_call veq self h c res err now))
           (snd (end_tool_call veq self h c res err now))"
proof -
  let ?self1 = "fst (end_tool_call veq self h c res err now)"
  let ?h1 = "snd (end_tool_call veq self h c res err now)"
  let ?P = "\<lambda>a. tool_call_eq veq ?h1 a c"
  have active: "active_tool_calls ?self1 =
      (if list_ex ?P (active_tool_calls self) then remove_first ?P (active_tool_calls self)
       else active_tool_calls self)"
    by (simp add: end_tool_call_def Let_def)
  from assms have dist: "distinct (active_tool_calls self)"
    and pend: "\<And>a. a \<in> set (active_tool_calls self) \<Longrightarrow>
                 a < length (call_objs h) \<and> status (call_objs h ! a) = ''pending''"
    by (simp_all add: tracer_inv_def list_all_iff)
  from active dist have dist1: "distinct (active_tool_calls ?self1)"
    by (simp add: remove_first_distinct)
  from active have sub: "set (active_tool_calls ?self1) \<subseteq> set (active_tool_calls self)"
    using remove_first_set [of ?P "active_tool_calls self"] by (simp split: if_splits)
  have "a < length (call_objs ?h1) \<and> status (call_objs ?h1 ! a) = ''pending''"
    if a: "a \<in> set (active_tool_calls ?self1)" for a
  proof -
    from a sub have old: "a \<in> set (active_tool_calls self)" by auto
    have "a \<noteq> c"
    proof
      assume "a = c"
      with old pend have "c < length (call_objs h)" by simp
      from end_tool_call_active [OF assms this, of veq res err now] a \<open>a = c\<close>
      show False by simp
    qed
    with pend [OF old] show ?thesis
      by (simp add: end_tool_call_others end_tool_call_length)
  qed
  with dist1 show ?thesis
    by (simp add: tracer_inv_def list_all_iff)
qed

lemma start_tool_call_inv:
  assumes "tracer_inv self h"
  shows "tracer_inv (fst (snd (start_tool_call self h tname args now)))
           (snd (snd (start_tool_call self h tname args now)))"
  using assms
  by (auto simp: tracer_inv_def list_all_iff start_tool_call_self start_tool_call_calls nth_append)

lemma start_trace_inv:
  assumes "tracer_inv self h"
  shows "tracer_inv (fst (snd (start_trace self h tid now))) (snd (snd (start_trace self h tid now)))"
  using assms by (simp add: tracer_inv_def start_trace_def Let_def)

lemma end_trace_inv:
  assumes "tracer_inv self h"
  shows "tracer_inv (fst (snd (end_trace self h now))) (snd (snd (end_trace self h now)))"
  using assms by (simp add: tracer_inv_def end_trace_def Let_def split: option.splits)

lemma run_call_inv:
  "tracer_inv (fst s) (snd s) \<Longrightarrow> tracer_inv (fst (run_call veq s c)) (snd (run_call veq s c))"
  by (cases s; cases c)
     (simp_all add: start_trace_inv end_trace_inv start_tool_call_inv end_tool_call_inv)

lemma run_calls_inv:
  "tracer_inv (fst s) (snd s) \<Longrightarrow> tracer_inv (fst (run_calls veq s cs)) (snd (run_calls veq s cs))"
  by (induction cs arbitrary: s) (simp_all add: run_calls_Nil run_calls_Cons run_call_inv)

lemma new_tracer_inv: "tracer_inv (new_ToolCallTracer b) h"
  by (simp add: tracer_inv_def new_ToolCallTracer_def)

lemma get_tool_call_stats_counts:
  assumes "current_trace self = Some a"
  shows "\<exists>s. get_tool_call_stats self h = Inr s \<and>
             successful s = length (successful_calls h (tool_calls (trace_objs h ! a))) \<and>
             failed s = length (failed_calls h (tool_calls (trace_objs h ! a))) \<and>
             total_calls s = length (tool_calls (trace_objs h ! a))"
  using assms by (simp add: get_tool_call_stats_def Let_def)

text \<open>
  Claim C6, as the claim states it, fails in three places. A call started and ended with
  \<^verbatim>\<open>error="timeout"\<close> on a tracer with no trace started is counted nowhere:
  \<^verbatim>\<open>get_tool_call_stats\<close> returns the error dict. An error string that is empty leaves
  the status \<^verbatim>\<open>success\<close>. And the duration is the difference of two readings of the
  wall clock, negative when the clock was set back between them.
\<close>

theorem end_tool_call_counterexample:
  "get_tool_call_stats
     (fst (run_calls shallow_eq (new_ToolCallTracer True, query_store)
        [StartToolCall ''search'' 0 10, EndToolCall 0 PNone (Some ''timeout'') 11]))
     (snd (run_calls shallow_eq (new_ToolCallTracer True, query_store)
        [StartToolCall ''search'' 0 10, EndToolCall 0 PNone (Some ''timeout'') 11]))
     = Inl ''No active trace'' \<and>
   status (call_objs (snd (run_calls shallow_eq (new_ToolCallTracer True, query_store)
        [StartToolCall ''search'' 0 10, EndToolCall 0 PNone (Some []) 11])) ! 0) = ''success'' \<and>
   duration_ms (call_objs (snd (run_calls shallow_eq (new_ToolCallTracer True, query_store)
        [StartToolCall ''search'' 0 10, EndToolCall 0 PNone (Some ''timeout'') 9])) ! 0) = Some (- 1000)"
  by (simp add: run_calls_def new_ToolCallTracer_def query_store_def empty_store_def
      start_tool_call_def end_tool_call_def get_tool_call_stats_def Let_def)

text \<open>
  Claim C6, amended. In a state the tracer's methods can reach, \<^verbatim>\<open>end_tool_call\<close> on a
  call of the store: with an error string that is not empty the status becomes
  \<^verbatim>\<open>failed\<close> and the error is stored; with no error (or the empty string) the status
  becomes \<^verbatim>\<open>success\<close> and the result is stored; the end time is the reading of the
  clock; when neither reading is zero the duration is (end - start) * 1000, which is not
  negative when the clock has not gone back; the call is no longer in the active list;
  and when a trace is current and holds the call, a failed call is in the failed subset
  that \<^verbatim>\<open>get_tool_call_stats\<close> counts and not in the successful one.
\<close>

theorem end_tool_call_finalizes:
  assumes "tracer_inv self h" and "c < length (call_objs h)"
  shows "(case err of
            None \<Rightarrow> status (ended_call veq self h c res err now) = ''success'' \<and>
                    result (ended_call veq self h c res err now) = res
          | Some e \<Rightarrow>
              if e = [] then status (ended_call veq self h c res err now) = ''success'' \<and>
                             result (ended_call veq self h c res err now) = res
              else status (ended_call veq self h c res err now) = ''failed'' \<and>
                   error (ended_call veq self h c res err now) = Some e) \<and>
         end_time (ended_call veq self h c res err now) = Some now \<and>
         (start_time (call_objs h ! c) \<noteq> 0 \<and> now \<noteq> 0 \<longrightarrow>
            duration_ms (ended_call veq self h c res err now) =
              Some ((now - start_time (call_objs h ! c)) * 1000)) \<and>
         (0 < start_time (call_objs h ! c) \<and> start_time (call_objs h ! c) \<le> now \<longrightarrow>
            (\<exists>d. duration_ms (ended_call veq self h c res err now) = Some d \<and> 0 \<le> d)) \<and>
         c \<notin> set (active_tool_calls (fst (end_tool_call veq self h c res err now))) \<and>
         (current_trace self = Some a \<and> c \<in> set (tool_calls (trace_objs h ! a)) \<and>
          status (ended_call veq self h c res err now) = ''failed'' \<longrightarrow>
            (\<exists>s. get_tool_call_stats (fst (end_tool_call veq self h c res err now))
                    (snd (end_tool_call veq self h c res err now)) = Inr s \<and>
                 failed s = length (failed_calls (snd (end_tool_call veq self h c res err now))
                                      (tool_calls (trace_objs h ! a))) \<and>
                 successful s = length (successful_calls (snd (end_tool_call veq self h c res err now))
                                      (tool_calls (trace_objs h ! a))) \<and>
                 c \<in> set (failed_calls (snd (end_tool_call veq self h c res err now))
                            (tool_calls (trace_objs h ! a))) \<and>
                 c \<notin> set (successful_calls (snd (end_tool_call veq self h c res err now))
                            (tool_calls (trace_objs h ! a))) \<and>
                 0 < failed s))"
proof (intro conjI impI)
  show "case err of
          None \<Rightarrow> status (ended_call veq self h c res err now) = ''success'' \<and>
                  result (ended_call veq self h c res err now) = res
        | Some e \<Rightarrow>
            if e = [] then status (ended_call veq self h c res err now) = ''success'' \<and>
                           result (ended_call veq self h c res err now) = res
            else status (ended_call veq self h c res err now) = ''failed'' \<and>
                 error (ended_call veq self h c res err now) = Some e"
    using assms(2) by (auto simp: ended_call_failed ended_call_success split: option.splits)
  show "end_time (ended_call veq self h c res err now) = Some now"
    using assms(2) by (rule ended_call_times)
  show "duration_ms (ended_call veq self h c res err now) =
          Some ((now - start_time (call_objs h ! c)) * 1000)"
    if "start_time (call_objs h ! c) \<noteq> 0 \<and> now \<noteq> 0"
    using that ended_call_times(3) [OF assms(2)] by simp
  show "\<exists>d. duration_ms (ended_call veq self h c res err now) = Some d \<and> 0 \<le> d"
    if "0 < start_time (call_objs h ! c) \<and> start_time (call_objs h ! c) \<le> now"
    using that ended_call_times(3) [OF assms(2), of now veq self res err] by simp
  show "c \<notin> set (active_tool_calls (fst (end_tool_call veq self h c res err now)))"
    using end_tool_call_active [OF assms] by simp
next
  let ?self1 = "fst (end_tool_call veq self h c res err now)"
  let ?h1 = "snd (end_tool_call veq self h c res err now)"
  let ?cs = "tool_calls (trace_objs h ! a)"
  assume a: "current_trace self = Some a \<and> c \<in> set ?cs \<and>
      status (ended_call veq self h c res err now) = ''failed''"
  then have cur: "current_trace ?self1 = Some a"
    by (simp add: end_tool_call_traces)
  from get_tool_call_stats_counts [OF cur, of ?h1]
  obtain s where s: "get_tool_call_stats ?self1 ?h1 = Inr s"
      "successful s = length (successful_calls ?h1 ?cs)"
      "failed s = length (failed_calls ?h1 ?cs)"
    by (auto simp: end_tool_call_traces)
  from a have inf: "c \<in> set (failed_calls ?h1 ?cs)" and nots: "c \<notin> set (successful_calls ?h1 ?cs)"
    by (simp_all add: failed_calls_def successful_calls_def ended_call_def)
  from inf have "0 < length (failed_calls ?h1 ?cs)"
    by (cases "failed_calls ?h1 ?cs") auto
  with s inf nots
  show "\<exists>s. get_tool_call_stats ?self1 ?h1 = Inr s \<and>
          failed s = length (failed_calls ?h1 ?cs) \<and>
          successful s = length (successful_calls ?h1 ?cs) \<and>
          c \<in> set (failed_calls ?h1 ?cs) \<and> c \<notin> set (successful_calls ?h1 ?cs) \<and> 0 < failed s"
    by auto
qed

lemma search_started_value:
  "search_started =
     (\<lparr>enable_timing = True, current_trace = Some 0, traces = [0], active_tool_calls = [0],
       stack_depth = 1\<rparr>,
      \<lparr>call_objs = [\<lparr>tool_name = ''search'', arguments = 1, start_time = 10, end_time = None,
                      duration_ms = None, result = PNone, error = None, status = ''pending'',
                      call_stack_depth = 0\<rparr>],
       trace_objs = [\<lparr>trace_id = ''cli-trace-1'', trace_start_time = 5, trace_end_time = None,
                       node_sequence = [], tool_calls = [0], edge_traversals = [],
                       total_duration_ms = None\<rparr>],
       objs = [PDict [(''q'', PStr ''hive'')], PDict [(''q'', PStr ''hive'')]]\<rparr>)"
  by (simp add: search_started_def run_calls_def new_ToolCallTracer_def query_store_def
      empty_store_def start_trace_def start_tool_call_def Let_def)

theorem end_tool_call_finalizes_witness:
  "tracer_inv (fst search_started) (snd search_started) \<and>
   0 < length (call_objs (snd search_started)) \<and>
   status (ended_call shallow_eq (fst search_started) (snd search_started) 0 PNone (Some ''timeout'') 12.5)
     = ''failed'' \<and>
   error (ended_call shallow_eq (fst search_started) (snd search_started) 0 PNone (Some ''timeout'') 12.5)
     = Some ''timeout'' \<and>
   duration_ms (ended_call shallow_eq (fst search_started) (snd search_started) 0 PNone (Some ''timeout'') 12.5)
     = Some 2500 \<and>
   0 \<notin> set (active_tool_calls
       (fst (end_tool_call shallow_eq (fst search_started) (snd search_started) 0 PNone (Some ''timeout'') 12.5))) \<and>
   (\<exists>s. get_tool_call_stats
       (fst (end_tool_call shallow_eq (fst search_started) (snd search_started) 0 PNone (Some ''timeout'') 12.5))
       (snd (end_tool_call shallow_eq (fst search_started) (snd search_started) 0 PNone (Some ''timeout'') 12.5))
       = Inr s \<and> failed s = 1 \<and> successful s = 0)"
proof -
  have inv: "tracer_inv (fst search_started) (snd search_started)"
    unfolding search_started_def by (rule run_calls_inv) (simp add: new_tracer_inv)
  have valid: "0 < length (call_objs (snd search_started))"
    by (simp add: search_started_value)
  have facts: "start_time (call_objs (snd search_started) ! 0) = 10"
      "current_trace (fst search_started) = Some 0"
      "tool_calls (trace_objs (snd search_started) ! 0) = [0]"
    by (simp_all add: search_started_value)
  note inst = end_tool_call_finalizes [OF inv valid, where err = "Some ''timeout''" and veq = shallow_eq
      and res = PNone and now = "12.5" and a = 0]
  from inst facts
  have st: "status (ended_call shallow_eq (fst search_started) (snd search_started) 0 PNone (Some ''timeout'') 12.5)
     = ''failed''"
    and er: "error (ended_call shallow_eq (fst search_started) (snd search_started) 0 PNone (Some ''timeout'') 12.5)
     = Some ''timeout''"
    and du: "duration_ms (ended_call shallow_eq (fst search_started) (snd search_started) 0 PNone (Some ''timeout'') 12.5)
     = Some 2500"
    and ac: "0 \<notin> set (active_tool_calls
       (fst (end_tool_call shallow_eq (fst search_started) (snd search_started) 0 PNone (Some ''timeout'') 12.5)))"
    by simp_all
  let ?h1 = "snd (end_tool_call shallow_eq (fst search_started) (snd search_started) 0 PNone (Some ''timeout'') 12.5)"
  from inst facts st
  obtain s where s: "get_tool_call_stats
       (fst (end_tool_call shallow_eq (fst search_started) (snd search_started) 0 PNone (Some ''timeout'') 12.5))
       ?h1 = Inr s"
     "failed s = length (failed_calls ?h1 [0])" "successful s = length (successful_calls ?h1 [0])"
     "0 \<in> set (failed_calls ?h1 [0])" "0 \<notin> set (successful_calls ?h1 [0])"
    by auto
  from s(4,5) have "length (failed_calls ?h1 [0]) = 1" "length (successful_calls ?h1 [0]) = 0"
    by (simp_all add: failed_calls_def successful_calls_def split: if_splits)
  with s have "\<exists>s. get_tool_call_stats
       (fst (end_tool_call shallow_eq (fst search_started) (snd search_started) 0 PNone (Some ''timeout'') 12.5))
       ?h1 = Inr s \<and> failed s = 1 \<and> successful s = 0"
    by auto
  with inv valid st er du ac show ?thesis by simp
qed

text \<open>
  Claim C10. An empty error string ends the call exactly as no error does: the status is
  \<^verbatim>\<open>success\<close> and the result is stored. The status is \<^verbatim>\<open>failed\<close> only for an error
  string that is not empty.
\<close>

theorem end_tool_call_empty_error:
  "end_tool_call veq self h c res (Some []) now = end_tool_call veq self h c res None now \<and>
   (c < length (call_objs h) \<longrightarrow>
      status (ended_call veq self h c res (Some []) now) = ''success'' \<and>
      result (ended_call veq self h c res (Some []) now) = res \<and>
      (status (ended_call veq self h c res err now) = ''failed'' \<longleftrightarrow> (\<exists>e. err = Some e \<and> e \<noteq> [])))"
proof (intro conjI impI)
  show "end_tool_call veq self h c res (Some []) now = end_tool_call veq self h c res None now"
    by (simp add: end_tool_call_def Let_def)
  assume c: "c < length (call_objs h)"
  show "status (ended_call veq self h c res (Some []) now) = ''success''"
    and "result (ended_call veq self h c res (Some []) now) = res"
    using c by (simp_all add: ended_call_success)
  show "status (ended_call veq self h c res err now) = ''failed'' \<longleftrightarrow> (\<exists>e. err = Some e \<and> e \<noteq> [])"
  proof (cases "err = None \<or> err = Some []")
    case True
    with ended_call_success(1) [OF c True, of veq self res now] show ?thesis by auto
  next
    case False
    then obtain e where "err = Some e" "e \<noteq> []" by auto
    with ended_call_failed(1) [OF c this, of veq self res now] show ?thesis by simp
  qed
qed

theorem end_tool_call_empty_error_witness:
  "0 < length (call_objs (snd search_started)) \<and>
   status (ended_call shallow_eq (fst search_started) (snd search_started) 0 (PStr ''3 hits'') (Some []) 11)
     = ''success'' \<and>
   result (ended_call shallow_eq (fst search_started) (snd search_started) 0 (PStr ''3 hits'') (Some []) 11)
     = PStr ''3 hits'' \<and>
   status (ended_call shallow_eq (fst search_started) (snd search_started) 0 (PStr ''3 hits'') (Some ''boom'') 11)
     = ''failed'' \<and>
   end_tool_call shallow_eq (fst search_started) (snd search_started) 0 (PStr ''3 hits'') (Some []) 11 =
     end_tool_call shallow_eq (fst search_started) (snd search_started) 0 (PStr ''3 hits'') None 11"
proof -
  have valid: "0 < length (call_objs (snd search_started))"
    by (simp add: search_started_value)
  from end_tool_call_empty_error
    [where veq = shallow_eq and self = "fst search_started" and h = "snd search_started" and c = 0
       and res = "PStr ''3 hits''" and now = 11 and err = "Some ''boom''"] valid
  show ?thesis by simp
qed

text \<open>
  Claim C4, as the claim states it, fails: \<^verbatim>\<open>arguments.copy()\<close> is a shallow copy. With
  arguments \<^verbatim>\<open>{"ids": [1]}\<close>, appending to the caller's list after the call changes what
  the recorded arguments hold.
\<close>

theorem start_tool_call_deep_copy_counterexample:
  "arguments (call_objs (snd (snd (start_tool_call (new_ToolCallTracer True) nested_store ''search'' 1 10))) ! 0) = 2 \<and>
   deep_value 2 (objs (snd (snd (start_tool_call (new_ToolCallTracer True) nested_store ''search'' 1 10))))
     (PRef 2) = TDict [(''ids'', TList [TInt 1])] \<and>
   deep_value 2 ((objs (snd (snd (start_tool_call (new_ToolCallTracer True) nested_store ''search'' 1 10))))
                   [0 := PList [PInt 1, PInt 2]])
     (PRef 2) = TDict [(''ids'', TList [TInt 1, TInt 2])]"
  by (simp add: start_tool_call_def new_ToolCallTracer_def nested_store_def empty_store_def Let_def
      numeral_2_eq_2)

text \<open>
  Claim C4, amended. The recorded arguments are a shallow copy: a new container, at an
  address of its own, with the entries of the caller's (the same values, references
  included). Whatever is later written to the caller's container, or to any other object,
  the entries of the recorded container stay as they were at the call; what changes with
  the caller is the content of the containers that the entries refer to.
\<close>

theorem start_tool_call_shallow_copy:
  assumes "args < length (objs h)"
      and "h1 = snd (snd (start_tool_call self h tname args now))"
      and "copy = arguments (call_objs h1 ! fst (start_tool_call self h tname args now))"
  shows "copy \<noteq> args \<and> copy = length (objs h) \<and>
         objs h1 ! copy = objs h ! args \<and>
         objs h1 ! args = objs h ! args \<and>
         (b \<noteq> copy \<longrightarrow> (objs h1)[b := ob] ! copy = objs h ! args)"
proof -
  have os: "objs h1 = objs h @ [objs h ! args]"
    using assms(2) by (simp add: start_tool_call_def Let_def split: option.splits)
  have copy: "copy = length (objs h)"
    using assms(2,3) by (simp add: start_tool_call_calls start_tool_call_fst)
  with assms(1) os show ?thesis
    by (simp add: nth_append)
qed

theorem start_tool_call_shallow_copy_witness:
  "(1::nat) < length (objs nested_store) \<and>
   arguments (call_objs (snd (snd (start_tool_call (new_ToolCallTracer True) nested_store ''search'' 1 10))) ! 0) = 2 \<and>
   objs (snd (snd (start_tool_call (new_ToolCallTracer True) nested_store ''search'' 1 10))) ! 2 =
     PDict [(''ids'', PRef 0)] \<and>
   (objs (snd (snd (start_tool_call (new_ToolCallTracer True) nested_store ''search'' 1 10))))
     [1 := PDict [(''ids'', PNone), (''extra'', PInt 7)]] ! 2 = PDict [(''ids'', PRef 0)]"
proof -
  have valid: "(1::nat) < length (objs nested_store)"
    by (simp add: nested_store_def empty_store_def)
  have c: "fst (start_tool_call (new_ToolCallTracer True) nested_store ''search'' 1 10) = 0"
    by (simp add: start_tool_call_fst nested_store_def empty_store_def)
  have args: "objs nested_store ! 1 = PDict [(''ids'', PRef 0)]" "length (objs nested_store) = 2"
    by (simp_all add: nested_store_def empty_store_def)
  let ?h1 = "snd (snd (start_tool_call (new_ToolCallTracer True) nested_store ''search'' 1 10))"
  note inst = start_tool_call_shallow_copy [OF valid refl refl,
      where self = "new_ToolCallTracer True" and tname = "''search''" and now = 10 and b = 1
        and ob = "PDict [(''ids'', PNone), (''extra'', PInt 7)]", unfolded c args]
  from inst have copy: "arguments (call_objs ?h1 ! 0) = 2"
    by blast
  from inst have same: "objs ?h1 ! 2 = PDict [(''ids'', PRef 0)]"
    unfolding copy by blast
  from inst have "(1::nat) \<noteq> 2 \<longrightarrow>
      (objs ?h1)[1 := PDict [(''ids'', PNone), (''extra'', PInt 7)]] ! 2 = PDict [(''ids'', PRef 0)]"
    unfolding copy by blast
  then have "(objs ?h1)[1 := PDict [(''ids'', PNone), (''extra'', PInt 7)]] ! 2 = PDict [(''ids'', PRef 0)]"
    by simp
  with valid copy same show ?thesis
    by blast
qed

text \<open>
  A call made by \<^verbatim>\<open>start_tool_call\<close> meets what the statement on \<^verbatim>\<open>end_tool_call\<close>
  asks of the call it ends: it is a pending call of the store, active, stamped with the reading of the
  clock, and recorded in the current trace when there is one.
\<close>

lemma start_tool_call_then_end:
  assumes "tracer_inv self h"
      and "c = fst (start_tool_call self h tname args t0)"
      and "self1 = fst (snd (start_tool_call self h tname args t0))"
      and "h1 = snd (snd (start_tool_call self h tname args t0))"
  shows "tracer_inv self1 h1"
    and "c < length (call_objs h1)"
    and "start_time (call_objs h1 ! c) = t0"
    and "status (call_objs h1 ! c) = ''pending''"
    and "c \<in> set (active_tool_calls self1)"
    and "current_trace self1 = current_trace self"
    and "current_trace self = Some a \<Longrightarrow> a < length (trace_objs h) \<Longrightarrow>
           c \<in> set (tool_calls (trace_objs h1 ! a))"
proof -
  show "tracer_inv self1 h1"
    unfolding assms(3,4) using assms(1) by (rule start_tool_call_inv)
  show "c < length (call_objs h1)" "start_time (call_objs h1 ! c) = t0"
       "status (call_objs h1 ! c) = ''pending''"
    unfolding assms(2,4) by (simp_all add: start_tool_call_calls start_tool_call_fst)
  show "c \<in> set (active_tool_calls self1)" "current_trace self1 = current_trace self"
    unfolding assms(2,3) by (simp_all add: start_tool_call_self start_tool_call_fst)
  show "c \<in> set (tool_calls (trace_objs h1 ! a))"
    if "current_trace self = Some a" "a < length (trace_objs h)"
    using that unfolding assms(2,4) by (simp add: start_tool_call_def Let_def)
qed

end
